theory Spec2Isabelle
  imports Main "HOL-Library.Word"
begin

section \<open>The VotingV2 ledger (contracts/VotingV2.sol)\<close>

text \<open>
  A shallow embedding of the Solidity contract \<open>VotingV2\<close>. Storage is a record, every
  external function takes the storage, \<open>msg.sender\<close> and \<open>block.timestamp\<close> and returns
  either the error of the \<open>require\<close> that reverted or the storage after the call. A
  reverted call leaves the storage as it was. \<open>uint256\<close> is a 256-bit word and
  \<open>address\<close> a 160-bit word; a Solidity \<open>mapping\<close> is a total function whose value at
  a key never written is the zero value of its type. Events are not part of the storage
  and are left out.
\<close>

subsection \<open>Data\<close>

type_synonym uint256 = "256 word"
type_synonym address = "160 word"

record Candidate =
  id_cand :: uint256
  name_cand :: string
  voteCount :: uint256

record Election =
  id_elec :: uint256
  title :: string
  department :: string
  description :: string
  startTime :: uint256
  endTime :: uint256
  isActive :: bool
  candidates :: "uint256 \<Rightarrow> Candidate"
  candidatesCount :: uint256

record VoteHistory =
  electionId :: uint256
  candidateId :: uint256
  timestamp :: uint256

text \<open>
  The storage of the contract. \<open>owner\<close> is the slot that the inherited \<open>Ownable\<close>
  contract keeps and \<open>owner()\<close> reads.
\<close>

record contract =
  owner :: address
  electionCounter :: uint256
  elections :: "uint256 \<Rightarrow> Election"
  userVotes :: "address \<Rightarrow> uint256 \<Rightarrow> bool"
  userVoteHistory :: "address \<Rightarrow> VoteHistory list"
  admins :: "address \<Rightarrow> bool"

text \<open>
  One constructor for each revert of the contract, named after the \<open>require\<close> message:
  \<^item> \<open>NotAuthorized\<close>: "Not authorized" (\<open>Unauthorized\<close> in the specification);
  \<^item> \<open>NotOwner\<close>: the revert of \<open>onlyOwner\<close> (\<open>Unauthorized\<close>);
  \<^item> \<open>ElectionDoesNotExist\<close>: "Election does not exist" (\<open>NotFound\<close>);
  \<^item> \<open>ElectionNotStarted\<close>: "Election not started" (\<open>NotStarted\<close>);
  \<^item> \<open>ElectionEnded\<close>: "Election ended" (\<open>Ended\<close>);
  \<^item> \<open>AlreadyVoted\<close>: "Already voted in this election";
  \<^item> \<open>ElectionNotActive\<close>: "Election is not active" (\<open>ElectionClosed\<close> in \<open>vote\<close> and
    \<open>addCandidate\<close>, \<open>AlreadyClosed\<close> in \<open>closeElection\<close>);
  \<^item> \<open>InvalidCandidateID\<close>: "Invalid candidate ID" (\<open>InvalidCandidate\<close>);
  \<^item> \<open>StartTimeNotInFuture\<close>, \<open>EndTimeNotAfterStart\<close>: "Start time must be in future",
    "End time must be after start time" (both \<open>InvalidSchedule\<close>);
  \<^item> \<open>ElectionStillActive\<close>: "Election still active" (\<open>StillActive\<close>);
  \<^item> \<open>CannotRemoveSelf\<close>: "Cannot remove self" (\<open>SelfRemovalDenied\<close>);
  \<^item> \<open>ArithmeticOverflow\<close>: the panic of a checked \<open>++\<close> at \<open>2^256 - 1\<close>.
\<close>

datatype error =
    NotAuthorized
  | NotOwner
  | ElectionDoesNotExist
  | ElectionNotStarted
  | ElectionEnded
  | AlreadyVoted
  | ElectionNotActive
  | InvalidCandidateID
  | StartTimeNotInFuture
  | EndTimeNotAfterStart
  | ElectionStillActive
  | CannotRemoveSelf
  | ArithmeticOverflow

subsection \<open>Zero values and arithmetic\<close>

definition zero_Candidate :: Candidate where
  "zero_Candidate = \<lparr>id_cand = 0, name_cand = [], voteCount = 0\<rparr>"

definition zero_Election :: Election where
  "zero_Election =
     \<lparr>id_elec = 0, title = [], department = [], description = [], startTime = 0,
      endTime = 0, isActive = False, candidates = (\<lambda>_. zero_Candidate),
      candidatesCount = 0\<rparr>"

text \<open>Solidity 0.8 \<open>x++\<close> on a \<open>uint256\<close>: a panic at the maximum, \<open>x + 1\<close> below it.\<close>

definition checked_inc :: "uint256 \<Rightarrow> error + uint256" where
  "checked_inc x = (if x + 1 = 0 then Inl ArithmeticOverflow else Inr (x + 1))"

text \<open>
  Modelled from the spec: the \<open>Counters\<close> library that \<open>electionCounter\<close> uses is imported
  from a package and is not among the sources. The specification has election ids
  "monotonically increasing", "assigned at creation, never reused", each creation
  allocating "the next sequential election id". \<open>increment\<close> therefore adds one to the
  counter and, as every \<open>uint256\<close> increment of the contract, does not wrap around.
\<close>

definition increment :: "uint256 \<Rightarrow> error + uint256" where
  "increment c = checked_inc c"

subsection \<open>Modifiers\<close>

definition onlyAdmin :: "contract \<Rightarrow> address \<Rightarrow> bool" where
  "onlyAdmin s sender \<longleftrightarrow> admins s sender \<or> sender = owner s"

text \<open>
  Modelled from the spec: \<open>onlyOwner\<close> comes from the inherited \<open>Ownable\<close> contract, which
  is not among the sources. The specification has \<open>addAdmin\<close> and \<open>removeAdmin\<close>
  "callable only by the distinguished owner identity".
\<close>

definition onlyOwner :: "contract \<Rightarrow> address \<Rightarrow> bool" where
  "onlyOwner s sender \<longleftrightarrow> sender = owner s"

definition electionExists :: "contract \<Rightarrow> uint256 \<Rightarrow> bool" where
  "electionExists s eid \<longleftrightarrow> 0 < startTime (elections s eid)"

subsection \<open>Construction\<close>

text \<open>
  Modelled from the spec: the constructor of \<open>Ownable\<close> is not among the sources; "the
  creator/owner identity is admin by default at system initialization", so the deployer
  becomes the owner. The constructor of \<open>VotingV2\<close> then sets \<open>admins[msg.sender]\<close>.
\<close>

definition constructor :: "address \<Rightarrow> contract" where
  "constructor sender =
     \<lparr>owner = sender, electionCounter = 0, elections = (\<lambda>_. zero_Election),
      userVotes = (\<lambda>_ _. False), userVoteHistory = (\<lambda>_. []),
      admins = (\<lambda>a. a = sender)\<rparr>"

subsection \<open>State-changing functions\<close>

definition addAdmin :: "contract \<Rightarrow> address \<Rightarrow> address \<Rightarrow> error + contract" where
  "addAdmin s sender admin =
     (if \<not> onlyOwner s sender then Inl NotOwner
      else Inr (s\<lparr>admins := (admins s)(admin := True)\<rparr>))"

definition removeAdmin :: "contract \<Rightarrow> address \<Rightarrow> address \<Rightarrow> error + contract" where
  "removeAdmin s sender admin =
     (if \<not> onlyOwner s sender then Inl NotOwner
      else if \<not> admin \<noteq> sender then Inl CannotRemoveSelf
      else Inr (s\<lparr>admins := (admins s)(admin := False)\<rparr>))"

definition createElection ::
  "contract \<Rightarrow> address \<Rightarrow> uint256 \<Rightarrow> string \<Rightarrow> string \<Rightarrow> string \<Rightarrow> uint256 \<Rightarrow> uint256
     \<Rightarrow> error + contract" where
  "createElection s sender now ttl dep descr start end =
     (if \<not> onlyAdmin s sender then Inl NotAuthorized
      else if \<not> now < start then Inl StartTimeNotInFuture
      else if \<not> start < end then Inl EndTimeNotAfterStart
      else case increment (electionCounter s) of
        Inl e \<Rightarrow> Inl e
      | Inr eid \<Rightarrow>
          Inr (s\<lparr>electionCounter := eid,
                 elections := (elections s)(eid := (elections s eid)
                   \<lparr>id_elec := eid, title := ttl, department := dep, description := descr,
                    startTime := start, endTime := end, isActive := True,
                    candidatesCount := 0\<rparr>)\<rparr>))"

definition addCandidate ::
  "contract \<Rightarrow> address \<Rightarrow> uint256 \<Rightarrow> string \<Rightarrow> error + contract" where
  "addCandidate s sender eid nm =
     (if \<not> onlyAdmin s sender then Inl NotAuthorized
      else if \<not> electionExists s eid then Inl ElectionDoesNotExist
      else if \<not> isActive (elections s eid) then Inl ElectionNotActive
      else case checked_inc (candidatesCount (elections s eid)) of
        Inl e \<Rightarrow> Inl e
      | Inr cid \<Rightarrow>
          Inr (s\<lparr>elections := (elections s)(eid := (elections s eid)
                   \<lparr>candidatesCount := cid,
                    candidates := (candidates (elections s eid))
                      (cid := (candidates (elections s eid) cid)
                         \<lparr>id_cand := cid, name_cand := nm, voteCount := 0\<rparr>)\<rparr>)\<rparr>))"

text \<open>
  \<open>vote\<close>: the modifiers \<open>electionExists\<close>, \<open>validElectionTime\<close> and \<open>hasNotVoted\<close> run in
  the order of the function header, then the two \<open>require\<close>s of the body. The three
  writes are undone when the last one, the checked \<open>voteCount++\<close>, panics.
\<close>

definition vote ::
  "contract \<Rightarrow> address \<Rightarrow> uint256 \<Rightarrow> uint256 \<Rightarrow> uint256 \<Rightarrow> error + contract" where
  "vote s sender now eid cid =
     (if \<not> electionExists s eid then Inl ElectionDoesNotExist
      else if \<not> startTime (elections s eid) \<le> now then Inl ElectionNotStarted
      else if \<not> now \<le> endTime (elections s eid) then Inl ElectionEnded
      else if userVotes s sender eid then Inl AlreadyVoted
      else if \<not> isActive (elections s eid) then Inl ElectionNotActive
      else if \<not> cid \<le> candidatesCount (elections s eid) then Inl InvalidCandidateID
      else case checked_inc (voteCount (candidates (elections s eid) cid)) of
        Inl e \<Rightarrow> Inl e
      | Inr n \<Rightarrow>
          Inr (s\<lparr>userVotes := (userVotes s)(sender := (userVotes s sender)(eid := True)),
                 userVoteHistory := (userVoteHistory s)
                   (sender := userVoteHistory s sender @
                      [\<lparr>electionId = eid, candidateId = cid, timestamp = now\<rparr>]),
                 elections := (elections s)(eid := (elections s eid)
                   \<lparr>candidates := (candidates (elections s eid))
                      (cid := (candidates (elections s eid) cid)\<lparr>voteCount := n\<rparr>)\<rparr>)\<rparr>))"

definition closeElection ::
  "contract \<Rightarrow> address \<Rightarrow> uint256 \<Rightarrow> uint256 \<Rightarrow> error + contract" where
  "closeElection s sender now eid =
     (if \<not> onlyAdmin s sender then Inl NotAuthorized
      else if \<not> electionExists s eid then Inl ElectionDoesNotExist
      else if \<not> endTime (elections s eid) < now then Inl ElectionStillActive
      else if \<not> isActive (elections s eid) then Inl ElectionNotActive
      else Inr (s\<lparr>elections := (elections s)(eid := (elections s eid)\<lparr>isActive := False\<rparr>)\<rparr>))"

subsection \<open>View functions\<close>

text \<open>
  The view functions have no \<open>require\<close>; \<open>getElection\<close> and \<open>getCandidate\<close> are given the
  result type of a call that could revert, so that "fails" can be said of them.
\<close>

definition getElection ::
  "contract \<Rightarrow> uint256 \<Rightarrow>
     error + (uint256 \<times> string \<times> string \<times> string \<times> uint256 \<times> uint256 \<times> bool \<times> uint256)" where
  "getElection s eid =
     (let election = elections s eid
      in Inr (id_elec election, title election, department election, description election,
              startTime election, endTime election, isActive election,
              candidatesCount election))"

definition getCandidate ::
  "contract \<Rightarrow> uint256 \<Rightarrow> uint256 \<Rightarrow> error + (uint256 \<times> string \<times> uint256)" where
  "getCandidate s eid cid =
     (let candidate = candidates (elections s eid) cid
      in Inr (id_cand candidate, name_cand candidate, voteCount candidate))"

definition hasUserVoted :: "contract \<Rightarrow> uint256 \<Rightarrow> address \<Rightarrow> bool" where
  "hasUserVoted s eid user = userVotes s user eid"

definition isElectionActive :: "contract \<Rightarrow> uint256 \<Rightarrow> uint256 \<Rightarrow> bool" where
  "isElectionActive s now eid \<longleftrightarrow>
     isActive (elections s eid) \<and> now \<le> endTime (elections s eid)"

definition getUserVoteHistory :: "contract \<Rightarrow> address \<Rightarrow> VoteHistory list" where
  "getUserVoteHistory s user = userVoteHistory s user"

definition getUserTotalVotes :: "contract \<Rightarrow> address \<Rightarrow> uint256" where
  "getUserTotalVotes s user = of_nat (length (userVoteHistory s user))"

subsection \<open>Transactions\<close>

datatype operation =
    CreateElection string string string uint256 uint256
  | AddCandidate uint256 string
  | Vote uint256 uint256
  | CloseElection uint256
  | AddAdmin address
  | RemoveAdmin address

record transaction =
  msg_sender :: address
  block_timestamp :: uint256
  call :: operation

fun dispatch :: "contract \<Rightarrow> address \<Rightarrow> uint256 \<Rightarrow> operation \<Rightarrow> error + contract" where
  "dispatch s a t (CreateElection ttl dep descr start end) =
     createElection s a t ttl dep descr start end"
| "dispatch s a t (AddCandidate eid nm) = addCandidate s a eid nm"
| "dispatch s a t (Vote eid cid) = vote s a t eid cid"
| "dispatch s a t (CloseElection eid) = closeElection s a t eid"
| "dispatch s a t (AddAdmin admin) = addAdmin s a admin"
| "dispatch s a t (RemoveAdmin admin) = removeAdmin s a admin"

text \<open>A transaction that reverts leaves the storage as it was.\<close>

definition exec :: "contract \<Rightarrow> transaction \<Rightarrow> contract" where
  "exec s tx =
     (case dispatch s (msg_sender tx) (block_timestamp tx) (call tx) of
        Inl _ \<Rightarrow> s
      | Inr s' \<Rightarrow> s')"

definition run :: "contract \<Rightarrow> transaction list \<Rightarrow> contract" where
  "run s txs = foldl exec s txs"

section \<open>Invariants of the reachable storage\<close>

text \<open>
  The predicates below are proof devices: each holds after \<open>constructor\<close> and is kept by
  every successful call, hence holds in every storage \<open>run (constructor d) txs\<close>.
\<close>

text \<open>
  The election registry: the existing elections are the ids \<open>1 .. electionCounter\<close>, a
  slot that does not exist holds the zero value, an existing election starts before it
  ends, and a candidate slot above \<open>candidatesCount\<close> holds the zero value.
\<close>

definition inv_registry :: "contract \<Rightarrow> bool" where
  "inv_registry s \<longleftrightarrow>
     (\<forall>i. electionExists s i \<longleftrightarrow> 0 < i \<and> i \<le> electionCounter s) \<and>
     (\<forall>i. \<not> electionExists s i \<longrightarrow> elections s i = zero_Election) \<and>
     (\<forall>i. electionExists s i \<longrightarrow> startTime (elections s i) < endTime (elections s i)) \<and>
     (\<forall>i c. candidatesCount (elections s i) < c \<longrightarrow>
        candidates (elections s i) c = zero_Candidate)"

text \<open>
  The vote ledger: a vote flag is only set for an existing election, the election ids of
  a voter's history are distinct and are the elections whose flag is set, and no tally
  exceeds the number of voters whose flag is set for the election.
\<close>

definition inv_ledger :: "contract \<Rightarrow> bool" where
  "inv_ledger s \<longleftrightarrow>
     (\<forall>v i. userVotes s v i \<longrightarrow> electionExists s i) \<and>
     (\<forall>v. distinct (map electionId (userVoteHistory s v)) \<and>
          set (map electionId (userVoteHistory s v)) = {i. userVotes s v i}) \<and>
     (\<forall>i c. unat (voteCount (candidates (elections s i) c)) \<le> card {v. userVotes s v i})"

text \<open>
  What a call may do to an election that exists: leave its descriptive fields and its
  times alone, and at most turn \<open>isActive\<close> off.
\<close>

definition same_election :: "Election \<Rightarrow> Election \<Rightarrow> bool" where
  "same_election e e' \<longleftrightarrow>
     title e' = title e \<and> department e' = department e \<and> description e' = description e \<and>
     startTime e' = startTime e \<and> endTime e' = endTime e \<and> (isActive e' \<longrightarrow> isActive e)"

text \<open>
  Every existing election whose flag is off was closed by a \<open>closeElection\<close> of the
  history, at a block time after its end time.
\<close>

definition closed_after_end :: "contract \<Rightarrow> transaction list \<Rightarrow> bool" where
  "closed_after_end s txs \<longleftrightarrow>
     (\<forall>i. electionExists s i \<and> \<not> isActive (elections s i) \<longrightarrow>
        (\<exists>tx \<in> set txs. call tx = CloseElection i \<and>
           endTime (elections s i) < block_timestamp tx))"

subsection \<open>A concrete history\<close>

text \<open>
  The scenario of the specification, with \<open>now = 1000\<close>: account 1 deploys the contract
  and creates an election running from 1010 to 1100, adds the candidates Alice (id 1)
  and Bob (id 2); account 2 votes at 1020; account 1 closes at 1150. \<open>tx_vote_zero\<close> is
  a vote for the candidate id 0, \<open>tx_carol\<close> a third candidate added at 1025,
  \<open>tx_create_next\<close> a second election created at 1160 and \<open>tx_create_blank\<close> a creation
  with empty texts.
\<close>

definition tx_create :: transaction where
  "tx_create = \<lparr>msg_sender = 1, block_timestamp = 1000,
     call = CreateElection ''Council'' ''Science'' ''Annual'' 1010 1100\<rparr>"

definition tx_alice :: transaction where
  "tx_alice = \<lparr>msg_sender = 1, block_timestamp = 1001, call = AddCandidate 1 ''Alice''\<rparr>"

definition tx_bob :: transaction where
  "tx_bob = \<lparr>msg_sender = 1, block_timestamp = 1002, call = AddCandidate 1 ''Bob''\<rparr>"

definition tx_vote :: transaction where
  "tx_vote = \<lparr>msg_sender = 2, block_timestamp = 1020, call = Vote 1 1\<rparr>"

definition tx_vote_zero :: transaction where
  "tx_vote_zero = \<lparr>msg_sender = 2, block_timestamp = 1020, call = Vote 1 0\<rparr>"

definition tx_close :: transaction where
  "tx_close = \<lparr>msg_sender = 1, block_timestamp = 1150, call = CloseElection 1\<rparr>"

definition tx_carol :: transaction where
  "tx_carol = \<lparr>msg_sender = 1, block_timestamp = 1025, call = AddCandidate 1 ''Carol''\<rparr>"

definition tx_create_next :: transaction where
  "tx_create_next = \<lparr>msg_sender = 1, block_timestamp = 1160,
     call = CreateElection ''Senate'' ''Arts'' ''Spring'' 1200 1300\<rparr>"

definition tx_create_blank :: transaction where
  "tx_create_blank = \<lparr>msg_sender = 1, block_timestamp = 1000,
     call = CreateElection [] [] [] 1010 1100\<rparr>"

section \<open>Lemmas\<close>

lemmas scenario_defs = tx_create_def tx_alice_def tx_bob_def tx_vote_def tx_vote_zero_def
  tx_close_def tx_carol_def tx_create_next_def tx_create_blank_def

lemmas eval_defs = createElection_def addCandidate_def vote_def closeElection_def addAdmin_def
  removeAdmin_def onlyAdmin_def onlyOwner_def electionExists_def increment_def checked_inc_def
  constructor_def zero_Election_def zero_Candidate_def exec_def run_def getElection_def
  getCandidate_def hasUserVoted_def getUserVoteHistory_def getUserTotalVotes_def
  isElectionActive_def

subsection \<open>Words\<close>

lemma unat_inc: "x + 1 \<noteq> 0 \<Longrightarrow> unat (x + 1) = Suc (unat x)" for x :: "'a::len word"
  using unatSuc [of x] by (simp add: add.commute)

lemma less_inc: "x + 1 \<noteq> 0 \<Longrightarrow> x < x + 1" for x :: "'a::len word"
  by (simp add: word_less_nat_alt unat_inc)

lemma le_inc_iff: "x + 1 \<noteq> 0 \<Longrightarrow> i \<le> x + 1 \<longleftrightarrow> i \<le> x \<or> i = x + 1" for x :: "'a::len word"
  by (auto simp: word_le_nat_alt unat_inc word_unat_eq_iff)

subsection \<open>The registry invariant\<close>

lemma inv_registry_constructor: "inv_registry (constructor d)"
  by (auto simp: inv_registry_def constructor_def electionExists_def zero_Election_def)

lemma inv_registry_createElection:
  assumes "inv_registry s" "createElection s a t ttl dep descr st en = Inr s'"
  shows "inv_registry s'"
proof -
  let ?c = "electionCounter s + 1"
  from assms(2) have ok: "?c \<noteq> 0" "t < st" "st < en"
    and s': "s' = s\<lparr>electionCounter := ?c,
                 elections := (elections s)(?c := (elections s ?c)
                   \<lparr>id_elec := ?c, title := ttl, department := dep, description := descr,
                    startTime := st, endTime := en, isActive := True,
                    candidatesCount := 0\<rparr>)\<rparr>"
    by (auto simp: createElection_def increment_def checked_inc_def split: if_splits)
  have lt: "electionCounter s < ?c" using ok(1) by (rule less_inc)
  have "\<not> ?c \<le> electionCounter s" using lt by simp
  with assms(1) have fresh: "elections s ?c = zero_Election"
    by (simp add: inv_registry_def)
  have st0: "0 < st" using ok(2) by (cases "st = 0") (auto simp: word_neq_0_conv)
  show ?thesis
    unfolding inv_registry_def
  proof (intro conjI allI impI)
    fix i
    show "electionExists s' i \<longleftrightarrow> 0 < i \<and> i \<le> electionCounter s'"
      using assms(1) ok(1) st0 unfolding inv_registry_def s'
      by (auto simp: electionExists_def le_inc_iff word_neq_0_conv)
  next
    fix i assume "\<not> electionExists s' i"
    then show "elections s' i = zero_Election"
      using assms(1) st0 unfolding inv_registry_def s'
      by (auto simp: electionExists_def split: if_splits)
  next
    fix i assume "electionExists s' i"
    then show "startTime (elections s' i) < endTime (elections s' i)"
      using assms(1) ok(3) unfolding inv_registry_def s'
      by (auto simp: electionExists_def split: if_splits)
  next
    fix i c assume "candidatesCount (elections s' i) < c"
    then show "candidates (elections s' i) c = zero_Candidate"
      using assms(1) fresh unfolding inv_registry_def s'
      by (auto simp: zero_Election_def split: if_splits)
  qed
qed

lemma pos_of_less: "t < st \<Longrightarrow> 0 < st" for st :: "'a::len word"
  by (cases "st = 0") (auto simp: word_neq_0_conv)

subsection \<open>What a successful call has checked and written\<close>

lemma createElection_InrD:
  assumes "createElection s a t ttl dep descr st en = Inr s'"
  shows "onlyAdmin s a" "t < st" "st < en" "electionCounter s + 1 \<noteq> 0"
    "s' = s\<lparr>electionCounter := electionCounter s + 1,
            elections := (elections s)(electionCounter s + 1 :=
              (elections s (electionCounter s + 1))
                \<lparr>id_elec := electionCounter s + 1, title := ttl, department := dep,
                 description := descr, startTime := st, endTime := en, isActive := True,
                 candidatesCount := 0\<rparr>)\<rparr>"
  using assms
  by (auto simp: createElection_def increment_def checked_inc_def split: if_splits)

lemma addCandidate_InrD:
  assumes "addCandidate s a eid nm = Inr s'"
  shows "onlyAdmin s a" "electionExists s eid" "isActive (elections s eid)"
    "candidatesCount (elections s eid) + 1 \<noteq> 0"
    "s' = s\<lparr>elections := (elections s)(eid := (elections s eid)
            \<lparr>candidatesCount := candidatesCount (elections s eid) + 1,
             candidates := (candidates (elections s eid))
               (candidatesCount (elections s eid) + 1 :=
                  (candidates (elections s eid) (candidatesCount (elections s eid) + 1))
                    \<lparr>id_cand := candidatesCount (elections s eid) + 1, name_cand := nm,
                     voteCount := 0\<rparr>)\<rparr>)\<rparr>"
  using assms
  by (auto simp: addCandidate_def checked_inc_def split: if_splits)

lemma vote_InrD:
  assumes "vote s a t eid cid = Inr s'"
  shows "electionExists s eid" "startTime (elections s eid) \<le> t"
    "t \<le> endTime (elections s eid)" "\<not> userVotes s a eid" "isActive (elections s eid)"
    "cid \<le> candidatesCount (elections s eid)"
    "voteCount (candidates (elections s eid) cid) + 1 \<noteq> 0"
    "s' = s\<lparr>userVotes := (userVotes s)(a := (userVotes s a)(eid := True)),
            userVoteHistory := (userVoteHistory s)
              (a := userVoteHistory s a @
                 [\<lparr>electionId = eid, candidateId = cid, timestamp = t\<rparr>]),
            elections := (elections s)(eid := (elections s eid)
              \<lparr>candidates := (candidates (elections s eid))
                 (cid := (candidates (elections s eid) cid)
                    \<lparr>voteCount := voteCount (candidates (elections s eid) cid) + 1\<rparr>)\<rparr>)\<rparr>"
  using assms
  by (auto simp: vote_def checked_inc_def split: if_splits)

lemma closeElection_InrD:
  assumes "closeElection s a t eid = Inr s'"
  shows "onlyAdmin s a" "electionExists s eid" "endTime (elections s eid) < t"
    "isActive (elections s eid)"
    "s' = s\<lparr>elections := (elections s)(eid := (elections s eid)\<lparr>isActive := False\<rparr>)\<rparr>"
  using assms
  by (auto simp: closeElection_def split: if_splits)

lemma addAdmin_InrD:
  assumes "addAdmin s a x = Inr s'"
  shows "s' = s\<lparr>admins := (admins s)(x := True)\<rparr>"
  using assms by (auto simp: addAdmin_def split: if_splits)

lemma removeAdmin_InrD:
  assumes "removeAdmin s a x = Inr s'"
  shows "s' = s\<lparr>admins := (admins s)(x := False)\<rparr>"
  using assms by (auto simp: removeAdmin_def split: if_splits)

lemma inv_registry_addCandidate:
  assumes "inv_registry s" "addCandidate s a eid nm = Inr s'"
  shows "inv_registry s'"
proof -
  note D = addCandidate_InrD [OF assms(2)]
  let ?n = "candidatesCount (elections s eid)"
  have lt: "?n < ?n + 1" using D(4) by (rule less_inc)
  show ?thesis
    unfolding inv_registry_def
  proof (intro conjI allI impI)
    fix i
    show "electionExists s' i \<longleftrightarrow> 0 < i \<and> i \<le> electionCounter s'"
      using assms(1) unfolding inv_registry_def D(5)
      by (auto simp: electionExists_def)
  next
    fix i assume "\<not> electionExists s' i"
    then show "elections s' i = zero_Election"
      using assms(1) D(2) unfolding inv_registry_def D(5)
      by (auto simp: electionExists_def split: if_splits)
  next
    fix i assume "electionExists s' i"
    then show "startTime (elections s' i) < endTime (elections s' i)"
      using assms(1) unfolding inv_registry_def D(5)
      by (auto simp: electionExists_def split: if_splits)
  next
    fix i c assume "candidatesCount (elections s' i) < c"
    then show "candidates (elections s' i) c = zero_Candidate"
      using assms(1) lt unfolding inv_registry_def D(5)
      by (auto split: if_splits)
  qed
qed

lemma inv_registry_vote:
  assumes "inv_registry s" "vote s a t eid cid = Inr s'"
  shows "inv_registry s'"
proof -
  note D = vote_InrD [OF assms(2)]
  show ?thesis
    unfolding inv_registry_def
  proof (intro conjI allI impI)
    fix i
    show "electionExists s' i \<longleftrightarrow> 0 < i \<and> i \<le> electionCounter s'"
      using assms(1) unfolding inv_registry_def D(8)
      by (auto simp: electionExists_def)
  next
    fix i assume "\<not> electionExists s' i"
    then show "elections s' i = zero_Election"
      using assms(1) D(1) unfolding inv_registry_def D(8)
      by (auto simp: electionExists_def split: if_splits)
  next
    fix i assume "electionExists s' i"
    then show "startTime (elections s' i) < endTime (elections s' i)"
      using assms(1) unfolding inv_registry_def D(8)
      by (auto simp: electionExists_def split: if_splits)
  next
    fix i c assume "candidatesCount (elections s' i) < c"
    then show "candidates (elections s' i) c = zero_Candidate"
      using assms(1) D(6) unfolding inv_registry_def D(8)
      by (auto split: if_splits)
  qed
qed

lemma inv_registry_closeElection:
  assumes "inv_registry s" "closeElection s a t eid = Inr s'"
  shows "inv_registry s'"
proof -
  note D = closeElection_InrD [OF assms(2)]
  show ?thesis
    unfolding inv_registry_def
  proof (intro conjI allI impI)
    fix i
    show "electionExists s' i \<longleftrightarrow> 0 < i \<and> i \<le> electionCounter s'"
      using assms(1) unfolding inv_registry_def D(5)
      by (auto simp: electionExists_def)
  next
    fix i assume "\<not> electionExists s' i"
    then show "elections s' i = zero_Election"
      using assms(1) D(2) unfolding inv_registry_def D(5)
      by (auto simp: electionExists_def split: if_splits)
  next
    fix i assume "electionExists s' i"
    then show "startTime (elections s' i) < endTime (elections s' i)"
      using assms(1) unfolding inv_registry_def D(5)
      by (auto simp: electionExists_def split: if_splits)
  next
    fix i c assume "candidatesCount (elections s' i) < c"
    then show "candidates (elections s' i) c = zero_Candidate"
      using assms(1) unfolding inv_registry_def D(5)
      by (auto split: if_splits)
  qed
qed

lemma inv_registry_dispatch:
  assumes "inv_registry s" "dispatch s a t c = Inr s'"
  shows "inv_registry s'"
proof (cases c)
  case (CreateElection ttl dep descr st en)
  with assms show ?thesis by (auto intro: inv_registry_createElection)
next
  case (AddCandidate eid nm)
  with assms show ?thesis by (auto intro: inv_registry_addCandidate)
next
  case (Vote eid cid)
  with assms show ?thesis by (auto intro: inv_registry_vote)
next
  case (CloseElection eid)
  with assms show ?thesis by (auto intro: inv_registry_closeElection)
next
  case (AddAdmin x)
  with assms show ?thesis
    by (auto dest!: addAdmin_InrD simp: inv_registry_def electionExists_def)
next
  case (RemoveAdmin x)
  with assms show ?thesis
    by (auto dest!: removeAdmin_InrD simp: inv_registry_def electionExists_def)
qed

lemma inv_registry_exec: "inv_registry s \<Longrightarrow> inv_registry (exec s tx)"
  by (auto simp: exec_def split: sum.splits intro: inv_registry_dispatch)

subsection \<open>Histories\<close>

lemma run_snoc: "run s (txs @ [tx]) = exec (run s txs) tx"
  by (simp add: run_def)

lemma run_append: "run s (txs @ txs') = run (run s txs) txs'"
  by (simp add: run_def)

lemma inv_registry_run: "inv_registry s \<Longrightarrow> inv_registry (run s txs)"
  by (induction txs rule: rev_induct) (simp_all add: run_snoc inv_registry_exec, simp add: run_def)

subsection \<open>The ledger invariant\<close>

lemma inv_ledger_constructor: "inv_ledger (constructor d)"
  by (simp add: inv_ledger_def constructor_def zero_Election_def zero_Candidate_def)

lemma inv_ledger_createElection:
  assumes "inv_ledger s" "createElection s a t ttl dep descr st en = Inr s'"
  shows "inv_ledger s'"
proof -
  note D = createElection_InrD [OF assms(2)]
  have st0: "0 < st" using D(2) by (rule pos_of_less)
  show ?thesis
    unfolding inv_ledger_def
  proof (intro conjI allI impI)
    fix v i assume "userVotes s' v i"
    then show "electionExists s' i"
      using assms(1) st0 unfolding inv_ledger_def D(5)
      by (auto simp: electionExists_def)
  next
    fix v
    show "distinct (map electionId (userVoteHistory s' v))"
      using assms(1) unfolding inv_ledger_def D(5) by simp
    show "set (map electionId (userVoteHistory s' v)) = {i. userVotes s' v i}"
      using assms(1) unfolding inv_ledger_def D(5) by simp
  next
    fix i c
    show "unat (voteCount (candidates (elections s' i) c)) \<le> card {v. userVotes s' v i}"
      using assms(1) unfolding inv_ledger_def D(5) by simp
  qed
qed

lemma inv_ledger_addCandidate:
  assumes "inv_ledger s" "addCandidate s a eid nm = Inr s'"
  shows "inv_ledger s'"
proof -
  note D = addCandidate_InrD [OF assms(2)]
  show ?thesis
    unfolding inv_ledger_def
  proof (intro conjI allI impI)
    fix v i assume "userVotes s' v i"
    then show "electionExists s' i"
      using assms(1) unfolding inv_ledger_def D(5)
      by (auto simp: electionExists_def)
  next
    fix v
    show "distinct (map electionId (userVoteHistory s' v))"
      using assms(1) unfolding inv_ledger_def D(5) by simp
    show "set (map electionId (userVoteHistory s' v)) = {i. userVotes s' v i}"
      using assms(1) unfolding inv_ledger_def D(5) by simp
  next
    fix i c
    show "unat (voteCount (candidates (elections s' i) c)) \<le> card {v. userVotes s' v i}"
      using assms(1) unfolding inv_ledger_def D(5) by simp
  qed
qed

lemma inv_ledger_closeElection:
  assumes "inv_ledger s" "closeElection s a t eid = Inr s'"
  shows "inv_ledger s'"
proof -
  note D = closeElection_InrD [OF assms(2)]
  show ?thesis
    unfolding inv_ledger_def
  proof (intro conjI allI impI)
    fix v i assume "userVotes s' v i"
    then show "electionExists s' i"
      using assms(1) unfolding inv_ledger_def D(5)
      by (auto simp: electionExists_def)
  next
    fix v
    show "distinct (map electionId (userVoteHistory s' v))"
      using assms(1) unfolding inv_ledger_def D(5) by simp
    show "set (map electionId (userVoteHistory s' v)) = {i. userVotes s' v i}"
      using assms(1) unfolding inv_ledger_def D(5) by simp
  next
    fix i c
    show "unat (voteCount (candidates (elections s' i) c)) \<le> card {v. userVotes s' v i}"
      using assms(1) unfolding inv_ledger_def D(5) by simp
  qed
qed

lemma card_voters_insert:
  fixes uv :: "address \<Rightarrow> uint256 \<Rightarrow> bool"
  assumes "\<not> uv a eid"
  shows "card {v. (uv(a := (uv a)(eid := True))) v eid} = Suc (card {v. uv v eid})"
proof -
  have "{v. (uv(a := (uv a)(eid := True))) v eid} = insert a {v. uv v eid}"
    by auto
  moreover have "a \<notin> {v. uv v eid}" using assms by simp
  ultimately show ?thesis by simp
qed

lemma inv_ledger_vote:
  assumes "inv_ledger s" "vote s a t eid cid = Inr s'"
  shows "inv_ledger s'"
proof -
  note D = vote_InrD [OF assms(2)]
  let ?uv' = "(userVotes s)(a := (userVotes s a)(eid := True))"
  have uv': "userVotes s' = ?uv'" unfolding D(8) by simp
  have card': "card {v. ?uv' v eid} = Suc (card {v. userVotes s v eid})"
    using D(4) by (rule card_voters_insert)
  have other: "{v. ?uv' v i} = {v. userVotes s v i}" if "i \<noteq> eid" for i
    using that by auto
  show ?thesis
    unfolding inv_ledger_def
  proof (intro conjI allI impI)
    fix v i assume "userVotes s' v i"
    then show "electionExists s' i"
      using assms(1) D(1) unfolding inv_ledger_def D(8)
      by (auto simp: electionExists_def split: if_splits)
  next
    fix v
    show "distinct (map electionId (userVoteHistory s' v))"
      using assms(1) D(4) unfolding inv_ledger_def D(8) by auto
    show "set (map electionId (userVoteHistory s' v)) = {i. userVotes s' v i}"
      using assms(1) unfolding inv_ledger_def D(8) by auto
  next
    fix i c
    have old: "unat (voteCount (candidates (elections s j) c')) \<le> card {v. userVotes s v j}"
      for j c'
      using assms(1) unfolding inv_ledger_def by simp
    show "unat (voteCount (candidates (elections s' i) c)) \<le> card {v. userVotes s' v i}"
    proof (cases "i = eid")
      case False
      then have "candidates (elections s' i) c = candidates (elections s i) c"
        unfolding D(8) by simp
      with old [of i c] other [OF False] show ?thesis by (simp add: uv')
    next
      case True
      show ?thesis
      proof (cases "c = cid")
        case False
        then have "candidates (elections s' i) c = candidates (elections s i) c"
          unfolding D(8) using True by simp
        with old [of eid c] card' True show ?thesis by (simp add: uv')
      next
        case c: True
        have "voteCount (candidates (elections s' i) c)
                = voteCount (candidates (elections s eid) cid) + 1"
          unfolding D(8) using True c by simp
        with old [of eid cid] card' True unat_inc [OF D(7)] show ?thesis
          by (simp add: uv')
      qed
    qed
  qed
qed

lemma inv_ledger_admins: "inv_ledger (s\<lparr>admins := f\<rparr>) = inv_ledger s"
  by (simp add: inv_ledger_def electionExists_def)

lemma inv_ledger_dispatch:
  assumes "inv_ledger s" "dispatch s a t c = Inr s'"
  shows "inv_ledger s'"
proof (cases c)
  case (CreateElection ttl dep descr st en)
  with assms show ?thesis by (auto intro: inv_ledger_createElection)
next
  case (AddCandidate eid nm)
  with assms show ?thesis by (auto intro: inv_ledger_addCandidate)
next
  case (Vote eid cid)
  with assms show ?thesis by (auto intro: inv_ledger_vote)
next
  case (CloseElection eid)
  with assms show ?thesis by (auto intro: inv_ledger_closeElection)
next
  case (AddAdmin x)
  with assms show ?thesis
    by (auto dest!: addAdmin_InrD simp: inv_ledger_admins)
next
  case (RemoveAdmin x)
  with assms show ?thesis
    by (auto dest!: removeAdmin_InrD simp: inv_ledger_admins)
qed

lemma inv_ledger_exec: "inv_ledger s \<Longrightarrow> inv_ledger (exec s tx)"
  by (auto simp: exec_def split: sum.splits intro: inv_ledger_dispatch)

lemma inv_ledger_run: "inv_ledger s \<Longrightarrow> inv_ledger (run s txs)"
  by (induction txs rule: rev_induct) (simp_all add: run_snoc inv_ledger_exec, simp add: run_def)

lemma inv_registry_reach: "inv_registry (run (constructor d) txs)"
  by (rule inv_registry_run [OF inv_registry_constructor])

lemma inv_ledger_reach: "inv_ledger (run (constructor d) txs)"
  by (rule inv_ledger_run [OF inv_ledger_constructor])

subsection \<open>Existing elections are only ever closed\<close>

lemma frame_dispatch:
  assumes "inv_registry s" "electionExists s eid" "dispatch s a t c = Inr s'"
  shows "same_election (elections s eid) (elections s' eid)"
proof (cases c)
  case (CreateElection ttl dep descr st en)
  with assms(3) have cr: "createElection s a t ttl dep descr st en = Inr s'" by simp
  note D = createElection_InrD [OF cr]
  have "electionCounter s < electionCounter s + 1" using D(4) by (rule less_inc)
  moreover have "eid \<le> electionCounter s"
    using assms(1,2) by (simp add: inv_registry_def)
  ultimately have "eid \<noteq> electionCounter s + 1" by auto
  then show ?thesis unfolding D(5) by (simp add: same_election_def)
next
  case (AddCandidate i nm)
  with assms(3) have "addCandidate s a i nm = Inr s'" by simp
  note D = addCandidate_InrD [OF this]
  show ?thesis unfolding D(5) by (simp add: same_election_def)
next
  case (Vote i cid)
  with assms(3) have "vote s a t i cid = Inr s'" by simp
  note D = vote_InrD [OF this]
  show ?thesis unfolding D(8) by (simp add: same_election_def)
next
  case (CloseElection i)
  with assms(3) have "closeElection s a t i = Inr s'" by simp
  note D = closeElection_InrD [OF this]
  show ?thesis unfolding D(5) by (simp add: same_election_def)
next
  case (AddAdmin x)
  with assms(3) show ?thesis by (auto dest!: addAdmin_InrD simp: same_election_def)
next
  case (RemoveAdmin x)
  with assms(3) show ?thesis by (auto dest!: removeAdmin_InrD simp: same_election_def)
qed

lemma frame_exec:
  assumes "inv_registry s" "electionExists s eid"
  shows "same_election (elections s eid) (elections (exec s tx) eid)"
proof (cases "dispatch s (msg_sender tx) (block_timestamp tx) (call tx)")
  case (Inl e)
  then show ?thesis by (simp add: exec_def same_election_def)
next
  case (Inr s')
  with frame_dispatch [OF assms Inr] show ?thesis by (simp add: exec_def)
qed

lemma same_election_exists:
  "same_election (elections s eid) (elections s' eid) \<Longrightarrow> electionExists s eid \<Longrightarrow>
   electionExists s' eid"
  by (simp add: same_election_def electionExists_def)

lemma same_election_trans:
  "same_election e e' \<Longrightarrow> same_election e' e'' \<Longrightarrow> same_election e e''"
  by (simp add: same_election_def)

lemma frame_run:
  assumes "inv_registry s" "electionExists s eid"
  shows "same_election (elections s eid) (elections (run s txs) eid)"
proof (induction txs rule: rev_induct)
  case Nil
  show ?case by (simp add: run_def same_election_def)
next
  case (snoc tx txs)
  have "inv_registry (run s txs)" using assms(1) by (rule inv_registry_run)
  moreover have "electionExists (run s txs) eid"
    using snoc assms(2) by (rule same_election_exists)
  ultimately have "same_election (elections (run s txs) eid) (elections (exec (run s txs) tx) eid)"
    by (rule frame_exec)
  with snoc show ?case by (simp add: run_snoc same_election_trans)
qed

subsection \<open>Vote flags are never reset\<close>

lemma userVotes_dispatch:
  assumes "userVotes s v i" "dispatch s a t c = Inr s'"
  shows "userVotes s' v i"
proof (cases c)
  case (CreateElection ttl dep descr st en)
  with assms show ?thesis by (auto dest!: createElection_InrD(5))
next
  case (AddCandidate eid nm)
  with assms show ?thesis by (auto dest!: addCandidate_InrD(5))
next
  case (Vote eid cid)
  with assms show ?thesis by (auto dest!: vote_InrD(8))
next
  case (CloseElection eid)
  with assms show ?thesis by (auto dest!: closeElection_InrD(5))
next
  case (AddAdmin x)
  with assms show ?thesis by (auto dest!: addAdmin_InrD)
next
  case (RemoveAdmin x)
  with assms show ?thesis by (auto dest!: removeAdmin_InrD)
qed

lemma userVotes_exec: "userVotes s v i \<Longrightarrow> userVotes (exec s tx) v i"
  by (auto simp: exec_def split: sum.splits intro: userVotes_dispatch)

lemma userVotes_run: "userVotes s v i \<Longrightarrow> userVotes (run s txs) v i"
  by (induction txs rule: rev_induct) (simp_all add: run_snoc userVotes_exec, simp add: run_def)

subsection \<open>Tallies do not overflow\<close>

text \<open>
  A tally is at most the number of accounts that voted in the election, and there are
  \<open>2^160\<close> accounts: the checked \<open>voteCount++\<close> of \<open>vote\<close> cannot panic.
\<close>

lemma card_voters_le: "card {v::address. P v} \<le> 2 ^ 160"
proof -
  have "card {v::address. P v} \<le> card (UNIV :: address set)"
    by (rule card_mono) simp_all
  then show ?thesis by (simp add: card_word)
qed

lemma no_overflow_small:
  fixes x :: uint256
  assumes "unat x \<le> 2 ^ 160"
  shows "x + 1 \<noteq> 0"
proof
  assume "x + 1 = 0"
  then have "x = - 1" by (simp add: eq_neg_iff_add_eq_0)
  then have "unat x = 2 ^ 256 - 1"
    by (simp add: unsigned_minus_1_eq_mask mask_eq_exp_minus_1)
  with assms show False by simp
qed

lemma voteCount_no_overflow:
  assumes "inv_ledger s"
  shows "voteCount (candidates (elections s i) c) + 1 \<noteq> 0"
proof -
  have "unat (voteCount (candidates (elections s i) c)) \<le> card {v. userVotes s v i}"
    using assms by (simp add: inv_ledger_def)
  also have "\<dots> \<le> 2 ^ 160" by (rule card_voters_le)
  finally show ?thesis by (rule no_overflow_small)
qed

subsection \<open>Closed elections have ended\<close>

lemma closed_after_end_exec:
  assumes "closed_after_end s txs"
  shows "closed_after_end (exec s tx) (txs @ [tx])"
proof (cases "dispatch s (msg_sender tx) (block_timestamp tx) (call tx)")
  case (Inl e)
  then have "exec s tx = s" by (simp add: exec_def)
  with assms show ?thesis by (auto simp: closed_after_end_def)
next
  case (Inr s')
  then have e: "exec s tx = s'" by (simp add: exec_def)
  show ?thesis
  proof (cases "call tx")
    case (CreateElection ttl dep descr st en)
    with Inr have "createElection s (msg_sender tx) (block_timestamp tx) ttl dep descr st en = Inr s'"
      by simp
    note D = createElection_InrD [OF this]
    show ?thesis using assms unfolding e closed_after_end_def D(5)
      by (auto simp: electionExists_def split: if_splits)
  next
    case (AddCandidate i nm)
    with Inr have "addCandidate s (msg_sender tx) i nm = Inr s'" by simp
    note D = addCandidate_InrD [OF this]
    show ?thesis using assms D(3) unfolding e closed_after_end_def D(5)
      by (auto simp: electionExists_def split: if_splits)
  next
    case (Vote i cid)
    with Inr have "vote s (msg_sender tx) (block_timestamp tx) i cid = Inr s'" by simp
    note D = vote_InrD [OF this]
    show ?thesis using assms D(5) unfolding e closed_after_end_def D(8)
      by (auto simp: electionExists_def split: if_splits)
  next
    case (CloseElection i)
    with Inr have "closeElection s (msg_sender tx) (block_timestamp tx) i = Inr s'" by simp
    note D = closeElection_InrD [OF this]
    show ?thesis using assms D(3) CloseElection unfolding e closed_after_end_def D(5)
      by (auto simp: electionExists_def split: if_splits)
  next
    case (AddAdmin x)
    with Inr have "s' = s\<lparr>admins := (admins s)(x := True)\<rparr>" by (auto dest!: addAdmin_InrD)
    then show ?thesis using assms unfolding e closed_after_end_def
      by (auto simp: electionExists_def)
  next
    case (RemoveAdmin x)
    with Inr have "s' = s\<lparr>admins := (admins s)(x := False)\<rparr>" by (auto dest!: removeAdmin_InrD)
    then show ?thesis using assms unfolding e closed_after_end_def
      by (auto simp: electionExists_def)
  qed
qed

lemma closed_after_end_reach: "closed_after_end (run (constructor d) txs) txs"
proof (induction txs rule: rev_induct)
  case Nil
  show ?case
    by (simp add: closed_after_end_def run_def constructor_def electionExists_def zero_Election_def)
next
  case (snoc tx txs)
  then show ?case by (simp add: run_snoc closed_after_end_exec)
qed

lemma card_nonzero_words: "card {i::uint256. i \<noteq> 0} = 2 ^ 256 - 1"
proof -
  have "{i::uint256. i \<noteq> 0} = UNIV - {0}" by auto
  then show ?thesis by (simp add: card_Diff_singleton card_word)
qed

section \<open>The claims\<close>

subsection \<open>C1: one vote for each voter and election\<close>

text \<open>
  C1, counterexample. The claim has every later attempt fail with \<open>AlreadyVoted\<close>.
  Account 2 votes at 1020 and the call succeeds; its second attempt at 1101, one tick
  after the end time 1100, fails with \<open>ElectionEnded\<close>: the modifier \<open>validElectionTime\<close>
  runs before \<open>hasNotVoted\<close>.
\<close>

theorem second_vote_after_end_counterexample:
  "\<not> isl (vote (run (constructor 1) [tx_create, tx_alice, tx_bob]) 2 1020 1 1) \<and>
   vote (run (constructor 1) [tx_create, tx_alice, tx_bob, tx_vote]) 2 1101 1 2 = Inl ElectionEnded \<and>
   vote (run (constructor 1) [tx_create, tx_alice, tx_bob, tx_vote]) 2 1101 1 2 \<noteq> Inl AlreadyVoted"
  by (simp add: scenario_defs eval_defs)

text \<open>
  C1, amended. In a storage reached from deployment, once \<open>vote\<close> of voter \<open>a\<close> for the
  election \<open>eid\<close> has succeeded, then after any further transactions \<open>txs'\<close> the vote
  record of \<open>(a, eid)\<close> is still true and every vote attempt of \<open>a\<close> for \<open>eid\<close>, with any
  candidate id \<open>cid'\<close> and at any time \<open>t'\<close>, fails: with \<open>ElectionNotStarted\<close> before
  the start time, with \<open>ElectionEnded\<close> after the end time, and with \<open>AlreadyVoted\<close>
  inside the time window. So at most one vote of \<open>a\<close> for \<open>eid\<close> ever succeeds.
\<close>

theorem vote_at_most_once:
  assumes "s = run (constructor d) txs" "vote s a t eid cid = Inr s1"
  shows "hasUserVoted (run s1 txs') eid a \<and>
         vote (run s1 txs') a t' eid cid' =
           Inl (if t' < startTime (elections s eid) then ElectionNotStarted
                else if endTime (elections s eid) < t' then ElectionEnded
                else AlreadyVoted)"
proof -
  note D = vote_InrD [OF assms(2)]
  have reg: "inv_registry s" unfolding assms(1) by (rule inv_registry_reach)
  have s1: "s1 = exec s \<lparr>msg_sender = a, block_timestamp = t, call = Vote eid cid\<rparr>"
    using assms(2) by (simp add: exec_def)
  have reg1: "inv_registry s1" unfolding s1 using reg by (rule inv_registry_exec)
  have f1: "same_election (elections s eid) (elections s1 eid)"
    unfolding s1 using reg D(1) by (rule frame_exec)
  have ex1: "electionExists s1 eid" using f1 D(1) by (rule same_election_exists)
  have f2: "same_election (elections s1 eid) (elections (run s1 txs') eid)"
    using reg1 ex1 by (rule frame_run)
  have ex2: "electionExists (run s1 txs') eid" using f2 ex1 by (rule same_election_exists)
  have times: "startTime (elections (run s1 txs') eid) = startTime (elections s eid)"
    "endTime (elections (run s1 txs') eid) = endTime (elections s eid)"
    using f1 f2 by (simp_all add: same_election_def)
  have "userVotes s1 a eid" unfolding D(8) by simp
  then have voted: "userVotes (run s1 txs') a eid" by (rule userVotes_run)
  show ?thesis
    using voted ex2 times by (auto simp: vote_def hasUserVoted_def)
qed

text \<open>
  C1, witness: account 2 votes at 1020, a third candidate is added at 1025, and the
  attempt of account 2 to vote for her at 1030 fails with \<open>AlreadyVoted\<close>.
\<close>

theorem vote_at_most_once_witness:
  "vote (run (constructor 1) [tx_create, tx_alice, tx_bob]) 2 1020 1 1 =
     Inr (run (constructor 1) [tx_create, tx_alice, tx_bob, tx_vote]) \<and>
   hasUserVoted (run (run (constructor 1) [tx_create, tx_alice, tx_bob, tx_vote]) [tx_carol]) 1 2 \<and>
   vote (run (run (constructor 1) [tx_create, tx_alice, tx_bob, tx_vote]) [tx_carol]) 2 1030 1 3 =
     Inl AlreadyVoted"
proof -
  have h: "vote (run (constructor 1) [tx_create, tx_alice, tx_bob]) 2 1020 1 1 =
     Inr (run (constructor 1) [tx_create, tx_alice, tx_bob, tx_vote])"
    by (simp add: scenario_defs eval_defs)
  have t: "startTime (elections (run (constructor 1) [tx_create, tx_alice, tx_bob]) 1) = 1010"
     "endTime (elections (run (constructor 1) [tx_create, tx_alice, tx_bob]) 1) = 1100"
    by (simp_all add: scenario_defs eval_defs)
  from vote_at_most_once [OF refl h, of "[tx_carol]" 1030 3] h show ?thesis
    unfolding t by simp
qed

subsection \<open>C2: tallies and history entries\<close>

text \<open>
  C2, the code at the failing input. The claim has the vote counts of the candidates
  \<open>1 .. candidatesCount\<close> of an election add up to the number of history entries for the
  election. After account 2 has voted for the candidate id 0, which \<open>vote\<close> accepts, the
  election has the two candidates 1 and 2 with the tallies 0 and 0, the vote is counted
  in the slot 0 that is no candidate, and the history of account 2 has one entry for the
  election: the sum is 0, the number of entries is 1.
\<close>

theorem tally_misses_vote_for_candidate_zero:
  "candidatesCount (elections (run (constructor 1) [tx_create, tx_alice, tx_bob, tx_vote_zero]) 1) = 2 \<and>
   voteCount (candidates (elections (run (constructor 1) [tx_create, tx_alice, tx_bob, tx_vote_zero]) 1) 1) = 0 \<and>
   voteCount (candidates (elections (run (constructor 1) [tx_create, tx_alice, tx_bob, tx_vote_zero]) 1) 2) = 0 \<and>
   voteCount (candidates (elections (run (constructor 1) [tx_create, tx_alice, tx_bob, tx_vote_zero]) 1) 0) = 1 \<and>
   getUserVoteHistory (run (constructor 1) [tx_create, tx_alice, tx_bob, tx_vote_zero]) 2 =
     [\<lparr>electionId = 1, candidateId = 0, timestamp = 1020\<rparr>]"
  by (simp add: scenario_defs eval_defs)

subsection \<open>C3: the candidate id of a vote\<close>

text \<open>
  C3, the code at the failing input. The claim has \<open>vote\<close> fail with
  \<open>InvalidCandidateID\<close> for a candidate id outside \<open>1 .. candidatesCount\<close>, in particular
  for the id 0. The election 1 exists, is active at 1020 with two candidates, and account
  2 has not voted: its vote for the candidate id 0 succeeds and sets its vote record,
  since \<open>vote\<close> only requires \<open>_candidateId <= candidatesCount\<close>.
\<close>

theorem vote_for_candidate_zero_succeeds:
  "electionExists (run (constructor 1) [tx_create, tx_alice, tx_bob]) 1 \<and>
   startTime (elections (run (constructor 1) [tx_create, tx_alice, tx_bob]) 1) \<le> 1020 \<and>
   isElectionActive (run (constructor 1) [tx_create, tx_alice, tx_bob]) 1020 1 \<and>
   \<not> hasUserVoted (run (constructor 1) [tx_create, tx_alice, tx_bob]) 1 2 \<and>
   candidatesCount (elections (run (constructor 1) [tx_create, tx_alice, tx_bob]) 1) = 2 \<and>
   vote (run (constructor 1) [tx_create, tx_alice, tx_bob]) 2 1020 1 0 \<noteq> Inl InvalidCandidateID \<and>
   \<not> isl (vote (run (constructor 1) [tx_create, tx_alice, tx_bob]) 2 1020 1 0) \<and>
   hasUserVoted (run (constructor 1) [tx_create, tx_alice, tx_bob, tx_vote_zero]) 1 2"
  by (simp add: scenario_defs eval_defs)

subsection \<open>C4: empty texts at creation\<close>

text \<open>
  C4, counterexample. The claim has \<open>createElection\<close> fail when a text is empty and store
  nothing. The deployer creates an election whose title, department and description are
  all empty, with a start time in the future and an end time after it: the call succeeds
  and the election 1 exists afterwards, with the empty title.
\<close>

theorem createElection_blank_counterexample:
  "onlyAdmin (constructor 1) 1 \<and>
   \<not> isl (createElection (constructor 1) 1 1000 [] [] [] 1010 1100) \<and>
   electionExists (run (constructor 1) [tx_create_blank]) 1 \<and>
   title (elections (run (constructor 1) [tx_create_blank]) 1) = []"
  by (simp add: scenario_defs eval_defs)

text \<open>
  C4, amended. For an admin caller and a schedule that passes the two checks (start
  time strictly in the future, end time after the start time), \<open>createElection\<close> does
  not look at the title, the department or the description: below the last election id
  it succeeds for all texts, empty or not, and stores the election with the texts given.
\<close>

theorem createElection_stores_any_text:
  assumes "onlyAdmin s a" "t < st" "st < en" "electionCounter s + 1 \<noteq> 0"
  shows "\<exists>s'. createElection s a t ttl dep descr st en = Inr s' \<and>
           electionExists s' (electionCounter s + 1) \<and>
           title (elections s' (electionCounter s + 1)) = ttl \<and>
           department (elections s' (electionCounter s + 1)) = dep \<and>
           description (elections s' (electionCounter s + 1)) = descr"
proof -
  have "0 < st" using assms(2) by (rule pos_of_less)
  then show ?thesis
    using assms by (simp add: createElection_def increment_def checked_inc_def electionExists_def)
qed

text \<open>
  C4, witness: the deployer creates an election with an empty title and an empty
  description.
\<close>

theorem createElection_stores_any_text_witness:
  "onlyAdmin (constructor 1) 1 \<and> (1000 :: uint256) < 1010 \<and> (1010 :: uint256) < 1100 \<and>
   electionCounter (constructor 1) + 1 \<noteq> 0 \<and>
   (\<exists>s'. createElection (constructor 1) 1 1000 [] ''Science'' [] 1010 1100 = Inr s' \<and>
      electionExists s' 1 \<and> title (elections s' 1) = [] \<and>
      department (elections s' 1) = ''Science'' \<and> description (elections s' 1) = [])"
proof -
  have h: "onlyAdmin (constructor 1) 1" "(1000 :: uint256) < 1010" "(1010 :: uint256) < 1100"
    "electionCounter (constructor 1) + 1 \<noteq> 0"
    by (simp_all add: onlyAdmin_def constructor_def)
  have c: "electionCounter (constructor 1) + 1 = 1" by (simp add: constructor_def)
  from createElection_stores_any_text [OF h, of "[]" "''Science''" "[]"] h show ?thesis
    unfolding c by simp
qed

subsection \<open>C5: reading unknown ids\<close>

text \<open>
  C5, counterexample. The claim has \<open>getElection\<close> and \<open>getCandidate\<close> fail for an
  unknown id. Right after deployment no election 7 exists; \<open>getElection\<close> returns the
  zero tuple for it and \<open>getCandidate\<close> the zero candidate, and neither call fails.
\<close>

theorem reads_unknown_id_counterexample:
  "\<not> electionExists (constructor 1) 7 \<and>
   getElection (constructor 1) 7 = Inr (0, [], [], [], 0, 0, False, 0) \<and>
   getElection (constructor 1) 7 \<noteq> Inl ElectionDoesNotExist \<and>
   getCandidate (constructor 1) 7 3 = Inr (0, [], 0) \<and>
   getCandidate (constructor 1) 7 3 \<noteq> Inl ElectionDoesNotExist"
  by (simp add: eval_defs)

text \<open>
  C5, amended. \<open>getElection\<close> and \<open>getCandidate\<close> take the storage and return a value
  only, so they change nothing, and they never fail. In a storage reached from
  deployment they return the zero tuple (id 0, empty texts, times 0, inactive, no
  candidates) for an election that does not exist, and \<open>getCandidate\<close> returns the zero
  candidate for a candidate id above \<open>candidatesCount\<close>. For other ids they return what
  the storage holds, by their definition.
\<close>

theorem reads_never_fail:
  assumes "s = run (constructor d) txs"
  shows "\<not> isl (getElection s eid) \<and> \<not> isl (getCandidate s eid cid) \<and>
         (\<not> electionExists s eid \<longrightarrow>
            getElection s eid = Inr (0, [], [], [], 0, 0, False, 0) \<and>
            getCandidate s eid cid = Inr (0, [], 0)) \<and>
         (candidatesCount (elections s eid) < cid \<longrightarrow> getCandidate s eid cid = Inr (0, [], 0))"
proof -
  have reg: "inv_registry s" unfolding assms(1) by (rule inv_registry_reach)
  have unknown: "elections s eid = zero_Election" if "\<not> electionExists s eid"
    using reg that by (simp add: inv_registry_def)
  have beyond: "candidates (elections s eid) cid = zero_Candidate"
    if "candidatesCount (elections s eid) < cid"
    using reg that by (simp add: inv_registry_def)
  show ?thesis
    using unknown beyond
    by (auto simp: getElection_def getCandidate_def zero_Election_def zero_Candidate_def Let_def)
qed

text \<open>
  C5, witness: after one election with one candidate, the election 5 and the candidate 2
  of the election 1 read as zero.
\<close>

theorem reads_never_fail_witness:
  "\<not> isl (getElection (run (constructor 1) [tx_create, tx_alice]) 5) \<and>
   \<not> isl (getCandidate (run (constructor 1) [tx_create, tx_alice]) 1 2) \<and>
   \<not> electionExists (run (constructor 1) [tx_create, tx_alice]) 5 \<and>
   getElection (run (constructor 1) [tx_create, tx_alice]) 5 = Inr (0, [], [], [], 0, 0, False, 0) \<and>
   candidatesCount (elections (run (constructor 1) [tx_create, tx_alice]) 1) < 2 \<and>
   getCandidate (run (constructor 1) [tx_create, tx_alice]) 1 2 = Inr (0, [], 0)"
proof -
  have h: "\<not> electionExists (run (constructor 1) [tx_create, tx_alice]) 5"
    "candidatesCount (elections (run (constructor 1) [tx_create, tx_alice]) 1) < 2"
    by (simp_all add: scenario_defs eval_defs)
  from reads_never_fail [OF refl, of 1 "[tx_create, tx_alice]" 5 2]
    reads_never_fail [OF refl, of 1 "[tx_create, tx_alice]" 1 2] h
  show ?thesis by simp
qed

subsection \<open>C6: the time window of a vote\<close>

text \<open>
  C6. In a storage reached from deployment, for an existing election whose \<open>isActive\<close>
  flag is true, a voter who has not voted in it and a candidate id in
  \<open>1 .. candidatesCount\<close>: \<open>vote\<close> strictly before the start time fails with
  \<open>ElectionNotStarted\<close>, exactly at the start time it succeeds, exactly at the end time
  it succeeds, as at any time between them, and strictly after the end time it fails
  with \<open>ElectionEnded\<close>. A vote that succeeds is cast: in the storage it returns the
  vote record of the voter is set, the history of the voter has one more entry, for
  this election, this candidate and the time of the vote, and the tally of the candidate
  is one more than before.
\<close>

theorem vote_time_window:
  assumes "s = run (constructor d) txs" "electionExists s eid" "\<not> hasUserVoted s eid a"
    "isActive (elections s eid)" "1 \<le> cid" "cid \<le> candidatesCount (elections s eid)"
  shows "(t < startTime (elections s eid) \<longrightarrow> vote s a t eid cid = Inl ElectionNotStarted) \<and>
         (\<exists>s'. vote s a (startTime (elections s eid)) eid cid = Inr s' \<and>
            hasUserVoted s' eid a \<and>
            getUserVoteHistory s' a = getUserVoteHistory s a @
              [\<lparr>electionId = eid, candidateId = cid,
                timestamp = startTime (elections s eid)\<rparr>] \<and>
            unat (voteCount (candidates (elections s' eid) cid)) =
              Suc (unat (voteCount (candidates (elections s eid) cid)))) \<and>
         (\<exists>s'. vote s a (endTime (elections s eid)) eid cid = Inr s' \<and>
            hasUserVoted s' eid a \<and>
            getUserVoteHistory s' a = getUserVoteHistory s a @
              [\<lparr>electionId = eid, candidateId = cid,
                timestamp = endTime (elections s eid)\<rparr>] \<and>
            unat (voteCount (candidates (elections s' eid) cid)) =
              Suc (unat (voteCount (candidates (elections s eid) cid)))) \<and>
         (startTime (elections s eid) \<le> t \<and> t \<le> endTime (elections s eid) \<longrightarrow>
            (\<exists>s'. vote s a t eid cid = Inr s' \<and>
               hasUserVoted s' eid a \<and>
               getUserVoteHistory s' a = getUserVoteHistory s a @
                 [\<lparr>electionId = eid, candidateId = cid, timestamp = t\<rparr>] \<and>
               unat (voteCount (candidates (elections s' eid) cid)) =
                 Suc (unat (voteCount (candidates (elections s eid) cid))))) \<and>
         (endTime (elections s eid) < t \<longrightarrow> vote s a t eid cid = Inl ElectionEnded)"
proof -
  have reg: "inv_registry s" unfolding assms(1) by (rule inv_registry_reach)
  have led: "inv_ledger s" unfolding assms(1) by (rule inv_ledger_reach)
  have lt: "startTime (elections s eid) < endTime (elections s eid)"
    using reg assms(2) by (simp add: inv_registry_def)
  have nov: "voteCount (candidates (elections s eid) cid) + 1 \<noteq> 0"
    using led by (rule voteCount_no_overflow)
  have inside: "\<exists>s'. vote s a u eid cid = Inr s' \<and> hasUserVoted s' eid a \<and>
      getUserVoteHistory s' a = getUserVoteHistory s a @
        [\<lparr>electionId = eid, candidateId = cid, timestamp = u\<rparr>] \<and>
      unat (voteCount (candidates (elections s' eid) cid)) =
        Suc (unat (voteCount (candidates (elections s eid) cid)))"
    if "startTime (elections s eid) \<le> u" "u \<le> endTime (elections s eid)" for u
    using that assms(2,3,4,6) nov unat_inc [OF nov]
    by (simp add: vote_def hasUserVoted_def getUserVoteHistory_def checked_inc_def)
  have before: "vote s a t eid cid = Inl ElectionNotStarted" if "t < startTime (elections s eid)"
    using that assms(2) by (simp add: vote_def not_le)
  have after: "vote s a t eid cid = Inl ElectionEnded" if "endTime (elections s eid) < t"
  proof -
    have "startTime (elections s eid) \<le> t" using lt that by simp
    then show ?thesis using that assms(2) by (simp add: vote_def not_le)
  qed
  have le: "startTime (elections s eid) \<le> endTime (elections s eid)" using lt by simp
  show ?thesis
  proof (intro conjI impI)
    assume "t < startTime (elections s eid)"
    then show "vote s a t eid cid = Inl ElectionNotStarted" by (rule before)
  next
    show "\<exists>s'. vote s a (startTime (elections s eid)) eid cid = Inr s' \<and>
            hasUserVoted s' eid a \<and>
            getUserVoteHistory s' a = getUserVoteHistory s a @
              [\<lparr>electionId = eid, candidateId = cid,
                timestamp = startTime (elections s eid)\<rparr>] \<and>
            unat (voteCount (candidates (elections s' eid) cid)) =
              Suc (unat (voteCount (candidates (elections s eid) cid)))"
      using le by (intro inside) simp_all
  next
    show "\<exists>s'. vote s a (endTime (elections s eid)) eid cid = Inr s' \<and>
            hasUserVoted s' eid a \<and>
            getUserVoteHistory s' a = getUserVoteHistory s a @
              [\<lparr>electionId = eid, candidateId = cid,
                timestamp = endTime (elections s eid)\<rparr>] \<and>
            unat (voteCount (candidates (elections s' eid) cid)) =
              Suc (unat (voteCount (candidates (elections s eid) cid)))"
      using le by (intro inside) simp_all
  next
    assume "startTime (elections s eid) \<le> t \<and> t \<le> endTime (elections s eid)"
    then show "\<exists>s'. vote s a t eid cid = Inr s' \<and>
               hasUserVoted s' eid a \<and>
               getUserVoteHistory s' a = getUserVoteHistory s a @
                 [\<lparr>electionId = eid, candidateId = cid, timestamp = t\<rparr>] \<and>
               unat (voteCount (candidates (elections s' eid) cid)) =
                 Suc (unat (voteCount (candidates (elections s eid) cid)))"
      by (intro inside) simp_all
  next
    assume "endTime (elections s eid) < t"
    then show "vote s a t eid cid = Inl ElectionEnded" by (rule after)
  qed
qed

text \<open>
  C6, witness: votes of account 2 for Bob at 1009, 1010, 1100 and 1101 in the election
  running from 1010 to 1100. The votes at 1010 and at 1100 set the vote record of
  account 2, make its history the one entry of the vote and bring the tally of Bob from
  0 to 1.
\<close>

theorem vote_time_window_witness:
  "electionExists (run (constructor 1) [tx_create, tx_alice, tx_bob]) 1 \<and>
   \<not> hasUserVoted (run (constructor 1) [tx_create, tx_alice, tx_bob]) 1 2 \<and>
   isActive (elections (run (constructor 1) [tx_create, tx_alice, tx_bob]) 1) \<and>
   (1 :: uint256) \<le> 2 \<and>
   2 \<le> candidatesCount (elections (run (constructor 1) [tx_create, tx_alice, tx_bob]) 1) \<and>
   vote (run (constructor 1) [tx_create, tx_alice, tx_bob]) 2 1009 1 2 = Inl ElectionNotStarted \<and>
   (\<exists>s'. vote (run (constructor 1) [tx_create, tx_alice, tx_bob]) 2 1010 1 2 = Inr s' \<and>
      hasUserVoted s' 1 2 \<and>
      getUserVoteHistory s' 2 = [\<lparr>electionId = 1, candidateId = 2, timestamp = 1010\<rparr>] \<and>
      unat (voteCount (candidates (elections s' 1) 2)) = 1) \<and>
   (\<exists>s'. vote (run (constructor 1) [tx_create, tx_alice, tx_bob]) 2 1100 1 2 = Inr s' \<and>
      hasUserVoted s' 1 2 \<and>
      getUserVoteHistory s' 2 = [\<lparr>electionId = 1, candidateId = 2, timestamp = 1100\<rparr>] \<and>
      unat (voteCount (candidates (elections s' 1) 2)) = 1) \<and>
   vote (run (constructor 1) [tx_create, tx_alice, tx_bob]) 2 1101 1 2 = Inl ElectionEnded"
proof -
  let ?s = "run (constructor 1) [tx_create, tx_alice, tx_bob]"
  have h: "electionExists ?s 1" "\<not> hasUserVoted ?s 1 2" "isActive (elections ?s 1)"
    "(1 :: uint256) \<le> 2" "2 \<le> candidatesCount (elections ?s 1)"
    by (simp_all add: scenario_defs eval_defs)
  have t: "startTime (elections ?s 1) = 1010" "endTime (elections ?s 1) = 1100"
    by (simp_all add: scenario_defs eval_defs)
  have before: "getUserVoteHistory ?s 2 = []" "unat (voteCount (candidates (elections ?s 1) 2)) = 0"
    by (simp_all add: scenario_defs eval_defs)
  from vote_time_window [OF refl h, of 1009] vote_time_window [OF refl h, of 1101] h
  show ?thesis unfolding t before by simp
qed

subsection \<open>C7: closing an election\<close>

text \<open>
  C7. In a storage reached from deployment, for an existing election and an admin
  caller: \<open>closeElection\<close> at a time up to the end time fails with
  \<open>ElectionStillActive\<close>. After the end time it fails with \<open>ElectionNotActive\<close> (the
  specification's \<open>AlreadyClosed\<close>) when the flag is already off, and succeeds when the
  flag is on; the call then turns the flag off, and after any further transactions every
  \<open>closeElection\<close> of an admin at a block time \<open>t'\<close> not before that of the successful
  call fails with \<open>ElectionNotActive\<close>. So the election is closed exactly once.
\<close>

theorem closeElection_once:
  assumes "s = run (constructor d) txs" "electionExists s eid" "onlyAdmin s a"
  shows "(t \<le> endTime (elections s eid) \<longrightarrow>
            closeElection s a t eid = Inl ElectionStillActive) \<and>
         (endTime (elections s eid) < t \<and> \<not> isActive (elections s eid) \<longrightarrow>
            closeElection s a t eid = Inl ElectionNotActive) \<and>
         (endTime (elections s eid) < t \<and> isActive (elections s eid) \<longrightarrow>
            (\<exists>s'. closeElection s a t eid = Inr s' \<and> \<not> isActive (elections s' eid) \<and>
               (\<forall>txs' a' t'. onlyAdmin (run s' txs') a' \<and> t \<le> t' \<longrightarrow>
                  closeElection (run s' txs') a' t' eid = Inl ElectionNotActive)))"
proof (intro conjI impI)
  assume "t \<le> endTime (elections s eid)"
  then show "closeElection s a t eid = Inl ElectionStillActive"
    using assms(2,3) by (auto simp: closeElection_def)
next
  assume "endTime (elections s eid) < t \<and> \<not> isActive (elections s eid)"
  then show "closeElection s a t eid = Inl ElectionNotActive"
    using assms(2,3) by (auto simp: closeElection_def)
next
  assume a: "endTime (elections s eid) < t \<and> isActive (elections s eid)"
  define s' where "s' = s\<lparr>elections := (elections s)(eid := (elections s eid)\<lparr>isActive := False\<rparr>)\<rparr>"
  have ok: "closeElection s a t eid = Inr s'"
    using a assms(2,3) by (auto simp: closeElection_def s'_def)
  have closed: "\<not> isActive (elections s' eid)" by (simp add: s'_def)
  have reg: "inv_registry s" unfolding assms(1) by (rule inv_registry_reach)
  have "dispatch s a t (CloseElection eid) = Inr s'" using ok by simp
  then have reg': "inv_registry s'" using reg by (rule inv_registry_dispatch [rotated])
  have ex': "electionExists s' eid" using assms(2) by (simp add: s'_def electionExists_def)
  have later: "closeElection (run s' txs') a' t' eid = Inl ElectionNotActive"
    if "onlyAdmin (run s' txs') a' \<and> t \<le> t'" for txs' a' t'
  proof -
    have f: "same_election (elections s' eid) (elections (run s' txs') eid)"
      using reg' ex' by (rule frame_run)
    have "electionExists (run s' txs') eid" using f ex' by (rule same_election_exists)
    moreover have "\<not> isActive (elections (run s' txs') eid)"
      using f closed by (simp add: same_election_def)
    moreover have "endTime (elections (run s' txs') eid) = endTime (elections s eid)"
      using f by (simp add: same_election_def s'_def)
    moreover have "endTime (elections s eid) < t'" using a that by auto
    ultimately show ?thesis using that by (auto simp: closeElection_def)
  qed
  show "\<exists>s'. closeElection s a t eid = Inr s' \<and> \<not> isActive (elections s' eid) \<and>
          (\<forall>txs' a' t'. onlyAdmin (run s' txs') a' \<and> t \<le> t' \<longrightarrow>
             closeElection (run s' txs') a' t' eid = Inl ElectionNotActive)"
    using ok closed later by blast
qed

text \<open>
  C7, witness: closing at 1100 is too early, closing at 1150 succeeds, and after a
  second election has been created at 1160, closing the first again at 1200 fails.
\<close>

theorem closeElection_once_witness:
  "electionExists (run (constructor 1) [tx_create, tx_alice, tx_vote]) 1 \<and>
   onlyAdmin (run (constructor 1) [tx_create, tx_alice, tx_vote]) 1 \<and>
   closeElection (run (constructor 1) [tx_create, tx_alice, tx_vote]) 1 1100 1 =
     Inl ElectionStillActive \<and>
   closeElection (run (constructor 1) [tx_create, tx_alice, tx_vote]) 1 1150 1 =
     Inr (run (constructor 1) [tx_create, tx_alice, tx_vote, tx_close]) \<and>
   \<not> isActive (elections (run (constructor 1) [tx_create, tx_alice, tx_vote, tx_close]) 1) \<and>
   closeElection (run (run (constructor 1) [tx_create, tx_alice, tx_vote, tx_close]) [tx_create_next])
     1 1200 1 = Inl ElectionNotActive"
proof -
  let ?s = "run (constructor 1) [tx_create, tx_alice, tx_vote]"
  let ?s' = "run (constructor 1) [tx_create, tx_alice, tx_vote, tx_close]"
  have h: "electionExists ?s 1" "onlyAdmin ?s 1"
    by (simp_all add: scenario_defs eval_defs)
  have t: "endTime (elections ?s 1) = 1100" "isActive (elections ?s 1)"
    by (simp_all add: scenario_defs eval_defs)
  have ok: "closeElection ?s 1 1150 1 = Inr ?s'"
    by (simp add: scenario_defs eval_defs)
  have adm: "onlyAdmin (run ?s' [tx_create_next]) 1"
    by (simp add: scenario_defs eval_defs)
  from closeElection_once [OF refl h, of 1100] have early:
    "closeElection ?s 1 1100 1 = Inl ElectionStillActive"
    unfolding t by simp
  from closeElection_once [OF refl h, of 1150] have late:
    "\<not> isActive (elections ?s' 1) \<and>
     (\<forall>txs' a' t'. onlyAdmin (run ?s' txs') a' \<and> 1150 \<le> t' \<longrightarrow>
        closeElection (run ?s' txs') a' t' 1 = Inl ElectionNotActive)"
    unfolding t ok by simp
  then have "closeElection (run ?s' [tx_create_next]) 1 1200 1 = Inl ElectionNotActive"
    using adm by simp
  with h early ok late show ?thesis by simp
qed

subsection \<open>C8: what never changes in an election\<close>

text \<open>
  C8. In a storage reached from deployment, for an existing election and any transaction
  \<open>tx\<close> (one of \<open>createElection\<close>, \<open>addCandidate\<close>, \<open>vote\<close>, \<open>closeElection\<close>,
  \<open>addAdmin\<close>, \<open>removeAdmin\<close>, from any sender at any time, successful or reverted): the
  title, the department, the description, the start time and the end time of the
  election are the same after \<open>tx\<close>, and if \<open>isActive\<close> is true after \<open>tx\<close> it was true
  before, so the flag never goes from false back to true.
\<close>

theorem election_fields_immutable:
  assumes "s = run (constructor d) txs" "electionExists s eid"
  shows "title (elections (exec s tx) eid) = title (elections s eid) \<and>
         department (elections (exec s tx) eid) = department (elections s eid) \<and>
         description (elections (exec s tx) eid) = description (elections s eid) \<and>
         startTime (elections (exec s tx) eid) = startTime (elections s eid) \<and>
         endTime (elections (exec s tx) eid) = endTime (elections s eid) \<and>
         (isActive (elections (exec s tx) eid) \<longrightarrow> isActive (elections s eid))"
proof -
  have "inv_registry s" unfolding assms(1) by (rule inv_registry_reach)
  from frame_exec [OF this assms(2), of tx] show ?thesis
    by (simp add: same_election_def)
qed

text \<open>
  C8, witness: closing the election at 1150 keeps its texts and times and turns the
  flag from true to false.
\<close>

theorem election_fields_immutable_witness:
  "electionExists (run (constructor 1) [tx_create, tx_alice]) 1 \<and>
   title (elections (exec (run (constructor 1) [tx_create, tx_alice]) tx_close) 1) = ''Council'' \<and>
   department (elections (exec (run (constructor 1) [tx_create, tx_alice]) tx_close) 1) = ''Science'' \<and>
   description (elections (exec (run (constructor 1) [tx_create, tx_alice]) tx_close) 1) = ''Annual'' \<and>
   startTime (elections (exec (run (constructor 1) [tx_create, tx_alice]) tx_close) 1) = 1010 \<and>
   endTime (elections (exec (run (constructor 1) [tx_create, tx_alice]) tx_close) 1) = 1100 \<and>
   isActive (elections (run (constructor 1) [tx_create, tx_alice]) 1) \<and>
   \<not> isActive (elections (exec (run (constructor 1) [tx_create, tx_alice]) tx_close) 1)"
proof -
  let ?s = "run (constructor 1) [tx_create, tx_alice]"
  have h: "electionExists ?s 1" by (simp add: scenario_defs eval_defs)
  have before: "title (elections ?s 1) = ''Council''" "department (elections ?s 1) = ''Science''"
    "description (elections ?s 1) = ''Annual''" "startTime (elections ?s 1) = 1010"
    "endTime (elections ?s 1) = 1100" "isActive (elections ?s 1)"
    by (simp_all add: scenario_defs eval_defs)
  have after: "\<not> isActive (elections (exec ?s tx_close) 1)"
    by (simp add: scenario_defs eval_defs)
  from election_fields_immutable [OF refl h, of tx_close] h after before(6)
  show ?thesis unfolding before(1-5) by simp
qed

subsection \<open>C9: the flag check of vote never fires\<close>

text \<open>
  C9. When the block times of a history and of a vote after it never decrease, the vote
  does not fail with \<open>ElectionNotActive\<close>: every existing election whose \<open>isActive\<close> is
  false was closed by a \<open>closeElection\<close> of the history at a block time strictly after
  its end time, so a vote for it fails the time-window check with \<open>ElectionEnded\<close>.
\<close>

theorem vote_never_reports_closed:
  assumes "sorted (map block_timestamp
             (txs @ [\<lparr>msg_sender = a, block_timestamp = t, call = Vote eid cid\<rparr>]))"
    and "s = run (constructor d) txs"
  shows "vote s a t eid cid \<noteq> Inl ElectionNotActive \<and>
         (\<forall>i. electionExists s i \<and> \<not> isActive (elections s i) \<longrightarrow>
            (\<exists>tx \<in> set txs. call tx = CloseElection i \<and>
               endTime (elections s i) < block_timestamp tx) \<and>
            vote s a t i cid = Inl ElectionEnded)"
proof -
  have le: "block_timestamp tx \<le> t" if "tx \<in> set txs" for tx
    using assms(1) that by (auto simp: sorted_append)
  have cl: "closed_after_end s txs" unfolding assms(2) by (rule closed_after_end_reach)
  have reg: "inv_registry s" unfolding assms(2) by (rule inv_registry_reach)
  have ended: "(\<exists>tx \<in> set txs. call tx = CloseElection i \<and>
               endTime (elections s i) < block_timestamp tx) \<and>
            vote s a t i c = Inl ElectionEnded"
    if "electionExists s i \<and> \<not> isActive (elections s i)" for i c
  proof -
    from cl that obtain tx where tx: "tx \<in> set txs" "call tx = CloseElection i"
      "endTime (elections s i) < block_timestamp tx"
      by (auto simp: closed_after_end_def)
    with le [of tx] have late: "endTime (elections s i) < t" by simp
    have "startTime (elections s i) < endTime (elections s i)"
      using reg that by (simp add: inv_registry_def)
    with late have "startTime (elections s i) \<le> t" by simp
    with late that tx show ?thesis by (auto simp: vote_def)
  qed
  have "vote s a t eid cid \<noteq> Inl ElectionNotActive"
  proof (cases "electionExists s eid \<and> \<not> isActive (elections s eid)")
    case True
    from ended [OF True, of cid] show ?thesis by simp
  next
    case False
    then show ?thesis by (auto simp: vote_def checked_inc_def split: if_splits)
  qed
  with ended show ?thesis by blast
qed

text \<open>
  C9, witness: the election is closed at 1150; a vote at 1200 fails with
  \<open>ElectionEnded\<close>.
\<close>

theorem vote_never_reports_closed_witness:
  "sorted (map block_timestamp ([tx_create, tx_alice, tx_close] @
     [\<lparr>msg_sender = 2, block_timestamp = 1200, call = Vote 1 1\<rparr>])) \<and>
   electionExists (run (constructor 1) [tx_create, tx_alice, tx_close]) 1 \<and>
   \<not> isActive (elections (run (constructor 1) [tx_create, tx_alice, tx_close]) 1) \<and>
   vote (run (constructor 1) [tx_create, tx_alice, tx_close]) 2 1200 1 1 \<noteq> Inl ElectionNotActive \<and>
   vote (run (constructor 1) [tx_create, tx_alice, tx_close]) 2 1200 1 1 = Inl ElectionEnded"
proof -
  let ?s = "run (constructor 1) [tx_create, tx_alice, tx_close]"
  have h: "sorted (map block_timestamp ([tx_create, tx_alice, tx_close] @
     [\<lparr>msg_sender = 2, block_timestamp = 1200, call = Vote 1 1\<rparr>]))"
    by (simp add: scenario_defs)
  have c: "electionExists ?s 1" "\<not> isActive (elections ?s 1)"
    by (simp_all add: scenario_defs eval_defs)
  from vote_never_reports_closed [OF h refl, of 1] h c show ?thesis by simp
qed

subsection \<open>C10: the history of a voter\<close>

text \<open>
  C10. In a storage reached from deployment and for every voter \<open>v\<close>: the entries of the
  vote history of \<open>v\<close> have pairwise distinct election ids, the history has an entry for
  the election \<open>eid\<close> exactly when \<open>hasUserVoted\<close> is true of \<open>eid\<close> and \<open>v\<close>, and
  \<open>getUserTotalVotes\<close> is the number of elections in which \<open>v\<close> has voted.
\<close>

theorem history_matches_vote_flags:
  assumes "s = run (constructor d) txs"
  shows "distinct (map electionId (getUserVoteHistory s v)) \<and>
         (\<forall>eid. (\<exists>h \<in> set (getUserVoteHistory s v). electionId h = eid) \<longleftrightarrow>
                 hasUserVoted s eid v) \<and>
         unat (getUserTotalVotes s v) = card {eid. hasUserVoted s eid v}"
proof -
  have reg: "inv_registry s" unfolding assms(1) by (rule inv_registry_reach)
  have led: "inv_ledger s" unfolding assms(1) by (rule inv_ledger_reach)
  let ?h = "userVoteHistory s v"
  have dist: "distinct (map electionId ?h)" using led by (simp add: inv_ledger_def)
  have set_eq: "set (map electionId ?h) = {i. userVotes s v i}"
    using led by (simp add: inv_ledger_def)
  have len: "length ?h = card {i. userVotes s v i}"
    using distinct_card [OF dist] set_eq by simp
  have "{i. userVotes s v i} \<subseteq> {i. i \<noteq> 0}"
    using led reg by (auto simp: inv_ledger_def inv_registry_def)
  then have "card {i. userVotes s v i} \<le> card {i::uint256. i \<noteq> 0}"
    by (rule card_mono [rotated]) simp
  then have bound: "length ?h < 2 ^ 256" using len by (simp add: card_nonzero_words)
  have "unat (of_nat (length ?h) :: uint256) = length ?h"
    using bound by (simp add: unat_of_nat)
  with len have total: "unat (getUserTotalVotes s v) = card {eid. hasUserVoted s eid v}"
    by (simp add: getUserTotalVotes_def hasUserVoted_def)
  have "(\<exists>h \<in> set ?h. electionId h = eid) \<longleftrightarrow> userVotes s v eid" for eid
  proof -
    have "eid \<in> set (map electionId ?h) \<longleftrightarrow> userVotes s v eid"
      unfolding set_eq by simp
    then show ?thesis by (auto simp: image_iff)
  qed
  with dist total show ?thesis
    by (simp add: getUserVoteHistory_def hasUserVoted_def)
qed

text \<open>
  C10, witness: after its vote in the election 1, account 2 has one history entry and
  has voted in one election.
\<close>

theorem history_matches_vote_flags_witness:
  "distinct (map electionId
     (getUserVoteHistory (run (constructor 1) [tx_create, tx_alice, tx_bob, tx_vote]) 2)) \<and>
   hasUserVoted (run (constructor 1) [tx_create, tx_alice, tx_bob, tx_vote]) 1 2 \<and>
   getUserTotalVotes (run (constructor 1) [tx_create, tx_alice, tx_bob, tx_vote]) 2 = 1 \<and>
   card {eid. hasUserVoted (run (constructor 1) [tx_create, tx_alice, tx_bob, tx_vote]) eid 2} = 1"
proof -
  let ?s = "run (constructor 1) [tx_create, tx_alice, tx_bob, tx_vote]"
  have n: "getUserTotalVotes ?s 2 = 1" by (simp add: scenario_defs eval_defs)
  have v: "hasUserVoted ?s 1 2" by (simp add: scenario_defs eval_defs)
  from history_matches_vote_flags [OF refl, of 1 "[tx_create, tx_alice, tx_bob, tx_vote]" 2] n v
  show ?thesis by simp
qed

end
